theory Spec2Isabelle
  imports Complex_Main "HOL-Library.Sublist"
begin

section \<open>Bounding shapes\<close>

text \<open>
  The C++ \<^verbatim>\<open>float\<close> is modelled by \<^typ>\<open>real\<close>: finite values with exact arithmetic.
  Rounding, infinities and NaN are outside the model. \<^verbatim>\<open>sf::Vector2f\<close> is a pair of
  floats with the public members \<^verbatim>\<open>x\<close> and \<^verbatim>\<open>y\<close>.
\<close>

record Vector2f =
  vec_x :: real
  vec_y :: real

text \<open>
  \<^verbatim>\<open>sf::RectangleShape\<close> and \<^verbatim>\<open>sf::CircleShape\<close>, reduced to what the edge queries
  read: the position and the size, respectively the position and the radius.
\<close>

datatype Shape =
  RectangleShape Vector2f Vector2f
| CircleShape Vector2f real

fun getPosition :: "Shape \<Rightarrow> Vector2f" where
  "getPosition (RectangleShape p sz) = p"
| "getPosition (CircleShape p r) = p"

text \<open>\<^verbatim>\<open>x()\<close> and \<^verbatim>\<open>y()\<close> of \<^verbatim>\<open>struct Rectangle\<close> and \<^verbatim>\<open>struct Circle\<close>.\<close>

definition xpos :: "Shape \<Rightarrow> real" where
  "xpos s = vec_x (getPosition s)"

definition ypos :: "Shape \<Rightarrow> real" where
  "ypos s = vec_y (getPosition s)"

text \<open>
  The four edge queries. The rectangle's are \<^verbatim>\<open>x() - width() / 2.f\<close> and so on
  (rectangle.hpp), the circle's \<^verbatim>\<open>x() - radius()\<close> and so on (circle.hpp).
\<close>

fun left :: "Shape \<Rightarrow> real" where
  "left (RectangleShape p sz) = vec_x p - vec_x sz / 2"
| "left (CircleShape p r) = vec_x p - r"

fun right :: "Shape \<Rightarrow> real" where
  "right (RectangleShape p sz) = vec_x p + vec_x sz / 2"
| "right (CircleShape p r) = vec_x p + r"

fun top_edge :: "Shape \<Rightarrow> real" where
  "top_edge (RectangleShape p sz) = vec_y p - vec_y sz / 2"
| "top_edge (CircleShape p r) = vec_y p - r"

fun bottom :: "Shape \<Rightarrow> real" where
  "bottom (RectangleShape p sz) = vec_y p + vec_y sz / 2"
| "bottom (CircleShape p r) = vec_y p + r"

section \<open>Entities\<close>

text \<open>\<^verbatim>\<open>class Entity\<close> (entity.hpp): the lifecycle flags every game object carries.\<close>

record Entity =
  destroyed :: bool
  updateRequired :: bool
  stagecount :: int

text \<open>
  Every concrete entity derives from \<^verbatim>\<open>Entity\<close> and from one of \<^verbatim>\<open>Rectangle\<close> or
  \<^verbatim>\<open>Circle\<close>, whose only data member is \<^verbatim>\<open>shape\<close>.
\<close>

record ShapedEntity = Entity +
  shape :: Shape

text \<open>
  \<^verbatim>\<open>class Brick\<close> (brick.hpp). \<^verbatim>\<open>hitsRequired\<close> is a C++ \<^verbatim>\<open>int\<close>; the resolver only
  decrements it by one, so it is an unbounded integer here. The colour and the two
  animation velocities are read by drawing and \<^verbatim>\<open>update\<close> only and are left out.
\<close>

record Brick = ShapedEntity +
  flingFlag :: bool
  hitsRequired :: int
  strength :: int

text \<open>
  \<^verbatim>\<open>class Ball\<close> (ball.hpp). \<^verbatim>\<open>beepSound\<close> counts the \<^verbatim>\<open>playSound()\<close> calls made on
  the ball's sound object.
\<close>

record Ball = ShapedEntity +
  velocity :: Vector2f
  beepSound :: nat

record Paddle = ShapedEntity +
  lastPosition :: Vector2f

record Bullet = ShapedEntity +
  isStruck :: bool

text \<open>The constructors, with the default extents of each class.\<close>

definition Brick_defWidth :: real where "Brick_defWidth = 60"
definition Brick_defHeight :: real where "Brick_defHeight = 20"
definition Ball_defRadius :: real where "Ball_defRadius = 5"
definition Bullet_defRadius :: real where "Bullet_defRadius = 5"
definition Paddle_defwidth :: real where "Paddle_defwidth = 100"
definition Paddle_defheight :: real where "Paddle_defheight = 10"

definition Brick_ctor :: "real \<Rightarrow> real \<Rightarrow> int \<Rightarrow> int \<Rightarrow> bool \<Rightarrow> Brick" where
  "Brick_ctor mX mY hits currentstagecount updateStatus =
     \<lparr> destroyed = False, updateRequired = updateStatus, stagecount = currentstagecount,
       shape = RectangleShape \<lparr>vec_x = mX, vec_y = mY\<rparr>
                 \<lparr>vec_x = Brick_defWidth, vec_y = Brick_defHeight\<rparr>,
       flingFlag = False, hitsRequired = hits, strength = hits \<rparr>"

definition Ball_ctor :: "real \<Rightarrow> real \<Rightarrow> bool \<Rightarrow> real \<Rightarrow> real \<Rightarrow> Ball" where
  "Ball_ctor mX mY updateStatus xvector yvector =
     \<lparr> destroyed = False, updateRequired = updateStatus, stagecount = 1,
       shape = CircleShape \<lparr>vec_x = mX, vec_y = mY\<rparr> Ball_defRadius,
       velocity = \<lparr>vec_x = xvector, vec_y = yvector\<rparr>, beepSound = 0 \<rparr>"

definition Paddle_ctor :: "real \<Rightarrow> real \<Rightarrow> bool \<Rightarrow> Paddle" where
  "Paddle_ctor mX mY updateStatus =
     \<lparr> destroyed = False, updateRequired = updateStatus, stagecount = 1,
       shape = RectangleShape \<lparr>vec_x = mX, vec_y = mY\<rparr>
                 \<lparr>vec_x = Paddle_defwidth, vec_y = Paddle_defheight\<rparr>,
       lastPosition = \<lparr>vec_x = mX, vec_y = mY\<rparr> \<rparr>"

definition Bullet_ctor :: "real \<Rightarrow> real \<Rightarrow> bool \<Rightarrow> Bullet" where
  "Bullet_ctor mX mY updateStatus =
     \<lparr> destroyed = False, updateRequired = updateStatus, stagecount = 1,
       shape = CircleShape \<lparr>vec_x = mX, vec_y = mY\<rparr> Bullet_defRadius,
       isStruck = False \<rparr>"

definition isFlying :: "Brick \<Rightarrow> bool" where
  "isFlying b = flingFlag b"

definition flingBrick :: "Brick \<Rightarrow> Brick" where
  "flingBrick b = b\<lparr>flingFlag := True\<rparr>"

section \<open>Collision resolver (utility.hpp)\<close>

text \<open>
  The template \<^verbatim>\<open>isIntersecting<T1, T2>\<close> accepts any two objects with the four edge
  queries; here, any two records that extend \<^typ>\<open>ShapedEntity\<close>.
\<close>

definition isIntersecting :: "'a ShapedEntity_scheme \<Rightarrow> 'b ShapedEntity_scheme \<Rightarrow> bool" where
  "isIntersecting mA mB \<longleftrightarrow>
     right (shape mA) \<ge> left (shape mB)
   \<and> left (shape mA) \<le> right (shape mB)
   \<and> bottom (shape mA) \<ge> top_edge (shape mB)
   \<and> top_edge (shape mA) \<le> bottom (shape mB)"




definition solveBrickBulletCollision :: "Brick \<Rightarrow> Bullet \<Rightarrow> Brick \<times> Bullet" where
  "solveBrickBulletCollision mbrick mbullet =
     (if \<not> isIntersecting mbrick mbullet then (mbrick, mbullet)
      else
        let b1 = mbrick\<lparr>hitsRequired := hitsRequired mbrick - 1\<rparr>;
            b2 = (if hitsRequired b1 = 0 then flingBrick b1 else b1)
        in (b2, mbullet\<lparr>destroyed := True\<rparr>))"

definition solveBallBrickCollision :: "Brick \<Rightarrow> Ball \<Rightarrow> Brick \<times> Ball" where
  "solveBallBrickCollision mbrick mball =
     (if \<not> isFlying mbrick then
        (if \<not> isIntersecting mbrick mball then (mbrick, mball)
         else
           let b1 = mbrick\<lparr>hitsRequired := hitsRequired mbrick - 1\<rparr>;
               ball1 = mball\<lparr>beepSound := Suc (beepSound mball)\<rparr>;
               b2 = (if hitsRequired b1 = 0 then flingBrick b1 else b1);
               overlapLeft = right (shape ball1) - left (shape b2);
               overlapRight = right (shape b2) - left (shape ball1);
               overlapTop = bottom (shape ball1) - top_edge (shape b2);
               overlapBottom = bottom (shape b2) - top_edge (shape ball1);
               ballFromLeft = (\<bar>overlapLeft\<bar> < \<bar>overlapRight\<bar>);
               ballFromTop = (\<bar>overlapTop\<bar> < \<bar>overlapBottom\<bar>);
               minOverlapX = (if ballFromLeft then overlapLeft else overlapRight);
               minOverlapY = (if ballFromTop then overlapTop else overlapBottom)
           in if \<bar>minOverlapX\<bar> < \<bar>minOverlapY\<bar>
              then (b2, ball1\<lparr>velocity := (velocity ball1)\<lparr>vec_x :=
                      (if ballFromLeft then vec_x (velocity ball1)
                       else - vec_x (velocity ball1))\<rparr>\<rparr>)
              else (b2, ball1\<lparr>velocity := (velocity ball1)\<lparr>vec_y :=
                      (if ballFromTop then vec_y (velocity ball1)
                       else - vec_y (velocity ball1))\<rparr>\<rparr>))
      else (mbrick, mball))"

text \<open>
  The collision axis in the specification's words: the horizontal overlap is the
  member of the left/right pair of smaller magnitude, the vertical one likewise, and
  the axis is horizontal exactly when the horizontal magnitude is strictly smaller.
  Under this strict comparison equal magnitudes give the vertical axis.
\<close>

datatype Axis = Horizontal | Vertical

definition spec_collisionAxis ::
  "'a ShapedEntity_scheme \<Rightarrow> 'b ShapedEntity_scheme \<Rightarrow> Axis" where
  "spec_collisionAxis mbrick mball =
     (let overlapLeft = right (shape mball) - left (shape mbrick);
          overlapRight = right (shape mbrick) - left (shape mball);
          overlapTop = bottom (shape mball) - top_edge (shape mbrick);
          overlapBottom = bottom (shape mbrick) - top_edge (shape mball);
          horizontal = min \<bar>overlapLeft\<bar> \<bar>overlapRight\<bar>;
          vertical = min \<bar>overlapTop\<bar> \<bar>overlapBottom\<bar>
      in if horizontal < vertical then Horizontal else Vertical)"

text \<open>
  The side the ball comes from, as the specification's worked example names it: from
  the left when the left overlap is strictly the smaller in magnitude of the left/right
  pair, from the top likewise for the top/bottom pair.
\<close>

definition spec_ballFromLeft ::
  "'a ShapedEntity_scheme \<Rightarrow> 'b ShapedEntity_scheme \<Rightarrow> bool" where
  "spec_ballFromLeft mbrick mball \<longleftrightarrow>
     \<bar>right (shape mball) - left (shape mbrick)\<bar> < \<bar>right (shape mbrick) - left (shape mball)\<bar>"

definition spec_ballFromTop ::
  "'a ShapedEntity_scheme \<Rightarrow> 'b ShapedEntity_scheme \<Rightarrow> bool" where
  "spec_ballFromTop mbrick mball \<longleftrightarrow>
     \<bar>bottom (shape mball) - top_edge (shape mbrick)\<bar>
       < \<bar>bottom (shape mbrick) - top_edge (shape mball)\<bar>"


section \<open>Entity store (manager.hpp)\<close>

text \<open>
  An entity lives on the heap and is known by its address. \<^verbatim>\<open>entities\<close> is the vector
  of \<^verbatim>\<open>std::shared_ptr<Entity>\<close>: the manager holds the only owning pointer of every
  entity, so an element is the address together with the object it owns, and erasing an
  element frees the object. \<^verbatim>\<open>groupedEntities\<close> is the \<^verbatim>\<open>std::map\<close> from
  \<^verbatim>\<open>typeid(T).hash_code()\<close> to a vector of raw \<^verbatim>\<open>Entity*\<close>: an association list of
  addresses that own nothing. A type is represented by its hash code.
\<close>

type_synonym addr = nat
type_synonym type_hash = nat

record 'a Manager =
  entities :: "(addr \<times> 'a Entity_scheme) list"
  groupedEntities :: "(type_hash \<times> addr list) list"
  totalLives :: int

datatype error = DanglingPointer | OutOfBounds

definition Manager_ctor :: "'a Manager" where
  "Manager_ctor = \<lparr> entities = [], groupedEntities = [], totalLives = 3 \<rparr>"

text \<open>Reading the object behind a raw pointer; \<open>None\<close> when nothing lives there.\<close>

definition deref :: "'a Manager \<Rightarrow> addr \<Rightarrow> 'a Entity_scheme option" where
  "deref m p = map_of (entities m) p"

text \<open>
  \<^verbatim>\<open>std::map::operator[]\<close>: the map after the call, which has gained an empty vector
  under a key that was absent, and the vector found under the key.
\<close>

fun subscript :: "type_hash \<Rightarrow> (type_hash \<times> addr list) list \<Rightarrow> (type_hash \<times> addr list) list" where
  "subscript k [] = [(k, [])]"
| "subscript k (g # gs) = (if fst g = k then g # gs else g # subscript k gs)"

definition group_at :: "type_hash \<Rightarrow> (type_hash \<times> addr list) list \<Rightarrow> addr list" where
  "group_at k gs = (case map_of gs k of None \<Rightarrow> [] | Some v \<Rightarrow> v)"

text \<open>\<^verbatim>\<open>groupedEntities[k].emplace_back(ptr)\<close>.\<close>

fun emplace_back_at :: "type_hash \<Rightarrow> addr \<Rightarrow> (type_hash \<times> addr list) list \<Rightarrow> (type_hash \<times> addr list) list" where
  "emplace_back_at k ptr [] = [(k, [ptr])]"
| "emplace_back_at k ptr (g # gs) =
     (if fst g = k then (k, snd g @ [ptr]) # gs else g # emplace_back_at k ptr gs)"

text \<open>
  \<^verbatim>\<open>create<T>(args...)\<close>: \<open>T\<close> is the hash code of the type, \<open>ptr\<close> the address
  \<^verbatim>\<open>std::make_shared\<close> returns and \<open>obj\<close> the object the constructor built there.
  The result is the reference returned and the manager afterwards.
\<close>

definition create :: "type_hash \<Rightarrow> addr \<Rightarrow> 'a Entity_scheme \<Rightarrow> 'a Manager \<Rightarrow> addr \<times> 'a Manager" where
  "create T ptr obj m =
     (ptr, m\<lparr> groupedEntities := emplace_back_at T ptr (groupedEntities m),
              entities := entities m @ [(ptr, obj)] \<rparr>)"

text \<open>
  \<^verbatim>\<open>vector.erase(std::remove_if(begin, end, pred), end)\<close> with a predicate that reads
  through a pointer: the elements the predicate rejects, in their order, or \<open>None\<close>
  when a pointer read hits freed memory.
\<close>

fun erase_remove_if :: "('x \<Rightarrow> bool option) \<Rightarrow> 'x list \<Rightarrow> 'x list option" where
  "erase_remove_if pred [] = Some []"
| "erase_remove_if pred (x # xs) =
     (case pred x of
        None \<Rightarrow> None
      | Some b \<Rightarrow>
          (case erase_remove_if pred xs of
             None \<Rightarrow> None
           | Some ys \<Rightarrow> Some (if b then ys else x # ys)))"

text \<open>The loop of \<^verbatim>\<open>refresh\<close> over the pairs of \<^verbatim>\<open>groupedEntities\<close>.\<close>

fun refresh_groups ::
  "(addr \<Rightarrow> bool option) \<Rightarrow> (type_hash \<times> addr list) list \<Rightarrow> (type_hash \<times> addr list) list option" where
  "refresh_groups pred [] = Some []"
| "refresh_groups pred (g # gs) =
     (case erase_remove_if pred (snd g) of
        None \<Rightarrow> None
      | Some v \<Rightarrow>
          (case refresh_groups pred gs of
             None \<Rightarrow> None
           | Some gs' \<Rightarrow> Some ((fst g, v) # gs')))"

definition refresh :: "'a Manager \<Rightarrow> error + 'a Manager" where
  "refresh m =
     (case refresh_groups (\<lambda>ment. map_option destroyed (deref m ment)) (groupedEntities m) of
        None \<Rightarrow> Inl DanglingPointer
      | Some gs \<Rightarrow>
          (case erase_remove_if (\<lambda>entSharedPtr. Some (destroyed (snd entSharedPtr))) (entities m) of
             None \<Rightarrow> Inl DanglingPointer
           | Some es \<Rightarrow> Inr (m\<lparr> groupedEntities := gs, entities := es \<rparr>)))"

definition clear :: "'a Manager \<Rightarrow> 'a Manager" where
  "clear m = m\<lparr> groupedEntities := [], entities := [] \<rparr>"

text \<open>\<^verbatim>\<open>getAll<T>()\<close> returns a copy of \<^verbatim>\<open>groupedEntities[hash]\<close>.\<close>

definition getAll :: "type_hash \<Rightarrow> 'a Manager \<Rightarrow> addr list \<times> 'a Manager" where
  "getAll T m =
     (let gs = subscript T (groupedEntities m)
      in (group_at T gs, m\<lparr> groupedEntities := gs \<rparr>))"

text \<open>
  \<^verbatim>\<open>getSingleEntity<T>()\<close> indexes the copy at 0 without a check; on an empty vector
  that read is out of bounds.
\<close>

definition getSingleEntity :: "type_hash \<Rightarrow> 'a Manager \<Rightarrow> (error + addr) \<times> 'a Manager" where
  "getSingleEntity T m =
     (let (vector, m') = getAll T m
      in (case vector of [] \<Rightarrow> Inl OutOfBounds | p # ps \<Rightarrow> Inr p, m'))"

text \<open>
  \<^verbatim>\<open>draw(mTarget)\<close> asks every entity of \<^verbatim>\<open>entities\<close>, front to back, to draw itself;
  the render target is the sequence of the entities drawn so far.
\<close>

definition draw :: "'a Manager \<Rightarrow> addr list \<Rightarrow> addr list" where
  "draw m mTarget = mTarget @ map fst (entities m)"

text \<open>
  Game code and \<^verbatim>\<open>update()\<close> change an entity through a borrowed reference; the
  containers are untouched. A reference to a freed entity is dangling.
\<close>

definition modify :: "addr \<Rightarrow> ('a Entity_scheme \<Rightarrow> 'a Entity_scheme) \<Rightarrow> 'a Manager \<Rightarrow> error + 'a Manager" where
  "modify p f m =
     (if p \<in> fst ` set (entities m)
      then Inr (m\<lparr> entities := map (\<lambda>e. if fst e = p then (p, f (snd e)) else e) (entities m) \<rparr>)
      else Inl DanglingPointer)"

text \<open>\<open>n\<close> calls of \<^verbatim>\<open>refresh()\<close> in a row.\<close>

fun refresh_times :: "nat \<Rightarrow> 'a Manager \<Rightarrow> error + 'a Manager" where
  "refresh_times 0 m = Inr m"
| "refresh_times (Suc n) m =
     (case refresh m of Inl e \<Rightarrow> Inl e | Inr m' \<Rightarrow> refresh_times n m')"

text \<open>
  The calls a client can make on a manager, and a sequence of them run in order; the
  run stops at the first failing call.
\<close>

datatype 'a call =
  Create type_hash addr "'a Entity_scheme"
| Refresh
| Clear
| GetAll type_hash
| Modify addr "'a Entity_scheme \<Rightarrow> 'a Entity_scheme"

fun perform :: "'a call \<Rightarrow> 'a Manager \<Rightarrow> error + 'a Manager" where
  "perform (Create T ptr obj) m = Inr (snd (create T ptr obj m))"
| "perform Refresh m = refresh m"
| "perform Clear m = Inr (clear m)"
| "perform (GetAll T) m = Inr (snd (getAll T m))"
| "perform (Modify p f) m = modify p f m"

fun run :: "'a call list \<Rightarrow> 'a Manager \<Rightarrow> error + 'a Manager" where
  "run [] m = Inr m"
| "run (c # cs) m = (case perform c m of Inl e \<Rightarrow> Inl e | Inr m' \<Rightarrow> run cs m')"

fun creates :: "type_hash \<Rightarrow> 'a call \<Rightarrow> bool" where
  "creates T (Create U ptr obj) = (U = T)"
| "creates T c = False"

text \<open>A raw pointer whose target exists and has \<^verbatim>\<open>destroyed\<close> unset.\<close>

definition alive :: "'a Manager \<Rightarrow> addr \<Rightarrow> bool" where
  "alive m p \<longleftrightarrow> (\<exists>e. deref m p = Some e \<and> \<not> destroyed e)"

text \<open>
  The state invariant of the store: no address is owned twice, no key occurs twice,
  and every raw pointer of the type index is the address of an owned entity.
\<close>

definition store_inv :: "'a Manager \<Rightarrow> bool" where
  "store_inv m \<longleftrightarrow>
     distinct (map fst (entities m))
   \<and> distinct (map fst (groupedEntities m))
   \<and> (\<forall>g \<in> set (groupedEntities m). \<forall>p \<in> set (snd g). p \<in> fst ` set (entities m))"

text \<open>
  \<^verbatim>\<open>std::make_shared\<close> returns the address of fresh memory: along a sequence of calls,
  the address of every \<open>Create\<close> is not the address of an entity the store owns at
  that moment.
\<close>

fun allocates_fresh :: "'a call list \<Rightarrow> 'a Manager \<Rightarrow> bool" where
  "allocates_fresh [] m = True"
| "allocates_fresh (c # cs) m =
     ((case c of Create T ptr obj \<Rightarrow> ptr \<notin> fst ` set (entities m) | _ \<Rightarrow> True)
      \<and> (case perform c m of Inl e \<Rightarrow> True | Inr m' \<Rightarrow> allocates_fresh cs m'))"

text \<open>The addresses a sequence of calls creates, in the order of creation.\<close>

fun created :: "'a call list \<Rightarrow> addr list" where
  "created [] = []"
| "created (Create T ptr obj # cs) = ptr # created cs"
| "created (c # cs) = created cs"

text \<open>
  A small store for the concrete instances below: three entities of two types, the
  second one marked destroyed, and the same store once refreshed.
\<close>

definition example_entity :: "bool \<Rightarrow> Entity" where
  "example_entity d = \<lparr> destroyed = d, updateRequired = False, stagecount = 1 \<rparr>"

definition example_manager :: "unit Manager" where
  "example_manager =
     \<lparr> entities = [(0, example_entity False), (1, example_entity True), (2, example_entity False)],
       groupedEntities = [(7, [0, 1]), (9, [2])],
       totalLives = 3 \<rparr>"

definition example_refreshed :: "unit Manager" where
  "example_refreshed =
     \<lparr> entities = [(0, example_entity False), (2, example_entity False)],
       groupedEntities = [(7, [0]), (9, [2])],
       totalLives = 3 \<rparr>"

section \<open>Properties of the collision resolver\<close>

lemmas ctor_defs = Brick_ctor_def Ball_ctor_def Paddle_ctor_def Bullet_ctor_def
  Brick_defWidth_def Brick_defHeight_def Ball_defRadius_def Bullet_defRadius_def
  Paddle_defwidth_def Paddle_defheight_def

lemma abs_chosen_overlap: "\<bar>if \<bar>a\<bar> < \<bar>b\<bar> then a else b\<bar> = min \<bar>a\<bar> \<bar>b :: real\<bar>"
  by (simp add: min_def)

lemma spec_collisionAxis_tie:
  assumes "min \<bar>right (shape mball) - left (shape mbrick)\<bar> \<bar>right (shape mbrick) - left (shape mball)\<bar>
         = min \<bar>bottom (shape mball) - top_edge (shape mbrick)\<bar> \<bar>bottom (shape mbrick) - top_edge (shape mball)\<bar>"
  shows "spec_collisionAxis mbrick mball = Vertical"
  unfolding spec_collisionAxis_def Let_def assms by (simp only: less_irrefl if_False)

lemma shape_after_hit:
  "shape (if c then flingBrick (b\<lparr>hitsRequired := h\<rparr>) else b\<lparr>hitsRequired := h\<rparr>) = shape b"
  by (simp add: flingBrick_def)

lemma axis_condition:
  "\<bar>if \<bar>oL\<bar> < \<bar>oR\<bar> then oL else oR\<bar> < \<bar>if \<bar>oT\<bar> < \<bar>oB\<bar> then oT else oB\<bar>
     \<longleftrightarrow> min \<bar>oL\<bar> \<bar>oR\<bar> < min \<bar>oT\<bar> \<bar>oB :: real\<bar>"
  by (simp only: abs_chosen_overlap)

lemma solveBallBrickCollision_velocity:
  assumes "\<not> isFlying mbrick" and "isIntersecting mbrick mball"
  shows "velocity (snd (solveBallBrickCollision mbrick mball)) =
     (if spec_collisionAxis mbrick mball = Horizontal
      then (velocity mball)\<lparr>vec_x :=
             (if spec_ballFromLeft mbrick mball then vec_x (velocity mball)
              else - vec_x (velocity mball))\<rparr>
      else (velocity mball)\<lparr>vec_y :=
             (if spec_ballFromTop mbrick mball then vec_y (velocity mball)
              else - vec_y (velocity mball))\<rparr>)"
proof -
  let ?oL = "right (shape mball) - left (shape mbrick)"
  let ?oR = "right (shape mbrick) - left (shape mball)"
  let ?oT = "bottom (shape mball) - top_edge (shape mbrick)"
  let ?oB = "bottom (shape mbrick) - top_edge (shape mball)"
  have axis: "spec_collisionAxis mbrick mball = Horizontal
      \<longleftrightarrow> min \<bar>?oL\<bar> \<bar>?oR\<bar> < min \<bar>?oT\<bar> \<bar>?oB\<bar>"
    by (simp add: spec_collisionAxis_def Let_def)
  have code: "velocity (snd (solveBallBrickCollision mbrick mball)) =
     (if min \<bar>?oL\<bar> \<bar>?oR\<bar> < min \<bar>?oT\<bar> \<bar>?oB\<bar>
      then (velocity mball)\<lparr>vec_x :=
             (if \<bar>?oL\<bar> < \<bar>?oR\<bar> then vec_x (velocity mball) else - vec_x (velocity mball))\<rparr>
      else (velocity mball)\<lparr>vec_y :=
             (if \<bar>?oT\<bar> < \<bar>?oB\<bar> then vec_y (velocity mball) else - vec_y (velocity mball))\<rparr>)"
    using assms
    by (simp only: solveBallBrickCollision_def Let_def shape_after_hit axis_condition) simp
  show ?thesis
    unfolding code axis spec_ballFromLeft_def spec_ballFromTop_def ..
qed

lemma solveBallBrickCollision_example:
  "velocity (snd (solveBallBrickCollision (Brick_ctor 100 100 1 1 False)
                    (Ball_ctor 95 100 False 2 2))) = \<lparr>vec_x = 2, vec_y = - 2\<rparr>"
  by (simp add: solveBallBrickCollision_def isIntersecting_def isFlying_def flingBrick_def
      ctor_defs Let_def)

text \<open>
  C1 as stated fails on exact ties. For the brick at (100,100) and the ball at
  (132,112) with velocity (2,2) the chosen horizontal and vertical overlaps both have
  magnitude 3. The call keeps \<^verbatim>\<open>velocity.x\<close> and negates \<^verbatim>\<open>velocity.y\<close>: the tie
  takes the vertical branch, not the horizontal one.
\<close>

theorem solveBallBrickCollision_tie_not_horizontal:
  "\<not> isFlying (Brick_ctor 100 100 1 1 False)
   \<and> isIntersecting (Brick_ctor 100 100 1 1 False) (Ball_ctor 132 112 False 2 2)
   \<and> min \<bar>right (shape (Ball_ctor 132 112 False 2 2)) - left (shape (Brick_ctor 100 100 1 1 False))\<bar>
          \<bar>right (shape (Brick_ctor 100 100 1 1 False)) - left (shape (Ball_ctor 132 112 False 2 2))\<bar>
       = 3
   \<and> min \<bar>bottom (shape (Ball_ctor 132 112 False 2 2)) - top_edge (shape (Brick_ctor 100 100 1 1 False))\<bar>
          \<bar>bottom (shape (Brick_ctor 100 100 1 1 False)) - top_edge (shape (Ball_ctor 132 112 False 2 2))\<bar>
       = 3
   \<and> velocity (Ball_ctor 132 112 False 2 2) = \<lparr>vec_x = 2, vec_y = 2\<rparr>
   \<and> velocity (snd (solveBallBrickCollision (Brick_ctor 100 100 1 1 False)
                      (Ball_ctor 132 112 False 2 2))) = \<lparr>vec_x = 2, vec_y = - 2\<rparr>
   \<and> vec_y (velocity (snd (solveBallBrickCollision (Brick_ctor 100 100 1 1 False)
                              (Ball_ctor 132 112 False 2 2))))
       \<noteq> vec_y (velocity (Ball_ctor 132 112 False 2 2))"
  by (simp add: solveBallBrickCollision_def isIntersecting_def isFlying_def flingBrick_def
      ctor_defs Let_def)

text \<open>
  C1, amended. On a non-flying brick that intersects the ball,
  \<^verbatim>\<open>solveBallBrickCollision\<close> picks the axis from the four overlaps: the horizontal
  axis when the smaller of the left/right overlap magnitudes is strictly below the
  smaller of the top/bottom ones, the vertical axis otherwise, exact ties included.
  Only the velocity component of the picked axis can change. The new velocity is the
  old one with that single component rewritten: on the horizontal axis \<^verbatim>\<open>velocity.x\<close>
  is kept when the ball comes from the left and negated when it does not, on the
  vertical axis \<^verbatim>\<open>velocity.y\<close> is kept when the ball comes from the top and negated
  when it does not. For the brick at (100,100) of size 60 by 20 and the ball at
  (95,100) of radius 5 with velocity (2,2), the velocity becomes (2,-2).
\<close>

theorem solveBallBrickCollision_axis:
  "(\<forall>mbrick mball. \<not> isFlying mbrick \<and> isIntersecting mbrick mball \<longrightarrow>
      velocity (snd (solveBallBrickCollision mbrick mball)) =
        (if spec_collisionAxis mbrick mball = Horizontal
         then (velocity mball)\<lparr>vec_x :=
                (if spec_ballFromLeft mbrick mball then vec_x (velocity mball)
                 else - vec_x (velocity mball))\<rparr>
         else (velocity mball)\<lparr>vec_y :=
                (if spec_ballFromTop mbrick mball then vec_y (velocity mball)
                 else - vec_y (velocity mball))\<rparr>))
   \<and> (\<forall>mbrick mball.
        min \<bar>right (shape mball) - left (shape mbrick)\<bar> \<bar>right (shape mbrick) - left (shape mball)\<bar>
          = min \<bar>bottom (shape mball) - top_edge (shape mbrick)\<bar>
                \<bar>bottom (shape mbrick) - top_edge (shape mball)\<bar> \<longrightarrow>
        spec_collisionAxis (mbrick :: Brick) (mball :: Ball) = Vertical)
   \<and> velocity (snd (solveBallBrickCollision (Brick_ctor 100 100 1 1 False)
                      (Ball_ctor 95 100 False 2 2))) = \<lparr>vec_x = 2, vec_y = - 2\<rparr>"
  using solveBallBrickCollision_velocity spec_collisionAxis_tie
    solveBallBrickCollision_example by blast

theorem solveBallBrickCollision_axis_witness:
  "\<not> isFlying (Brick_ctor 100 100 1 1 False)
   \<and> isIntersecting (Brick_ctor 100 100 1 1 False) (Ball_ctor 132 100 False 2 2)
   \<and> spec_collisionAxis (Brick_ctor 100 100 1 1 False) (Ball_ctor 132 100 False 2 2) = Horizontal
   \<and> \<not> spec_ballFromLeft (Brick_ctor 100 100 1 1 False) (Ball_ctor 132 100 False 2 2)
   \<and> velocity (snd (solveBallBrickCollision (Brick_ctor 100 100 1 1 False)
                      (Ball_ctor 132 100 False 2 2))) = \<lparr>vec_x = - 2, vec_y = 2\<rparr>
   \<and> isIntersecting (Brick_ctor 100 100 1 1 False) (Ball_ctor 100 112 False 2 (- 2))
   \<and> spec_collisionAxis (Brick_ctor 100 100 1 1 False) (Ball_ctor 100 112 False 2 (- 2)) = Vertical
   \<and> \<not> spec_ballFromTop (Brick_ctor 100 100 1 1 False) (Ball_ctor 100 112 False 2 (- 2))
   \<and> velocity (snd (solveBallBrickCollision (Brick_ctor 100 100 1 1 False)
                      (Ball_ctor 100 112 False 2 (- 2)))) = \<lparr>vec_x = 2, vec_y = 2\<rparr>
   \<and> isIntersecting (Brick_ctor 100 100 1 1 False) (Ball_ctor 132 112 False 2 2)
   \<and> min \<bar>right (shape (Ball_ctor 132 112 False 2 2)) - left (shape (Brick_ctor 100 100 1 1 False))\<bar>
          \<bar>right (shape (Brick_ctor 100 100 1 1 False)) - left (shape (Ball_ctor 132 112 False 2 2))\<bar>
       = min \<bar>bottom (shape (Ball_ctor 132 112 False 2 2)) - top_edge (shape (Brick_ctor 100 100 1 1 False))\<bar>
             \<bar>bottom (shape (Brick_ctor 100 100 1 1 False)) - top_edge (shape (Ball_ctor 132 112 False 2 2))\<bar>
   \<and> spec_collisionAxis (Brick_ctor 100 100 1 1 False) (Ball_ctor 132 112 False 2 2) = Vertical
   \<and> \<not> spec_ballFromTop (Brick_ctor 100 100 1 1 False) (Ball_ctor 132 112 False 2 2)
   \<and> velocity (snd (solveBallBrickCollision (Brick_ctor 100 100 1 1 False)
                      (Ball_ctor 132 112 False 2 2))) = \<lparr>vec_x = 2, vec_y = - 2\<rparr>"
proof -
  let ?brick = "Brick_ctor 100 100 1 1 False"
  let ?right = "Ball_ctor 132 100 False 2 2"
  let ?below = "Ball_ctor 100 112 False 2 (- 2)"
  let ?corner = "Ball_ctor 132 112 False 2 2"
  note general = solveBallBrickCollision_axis[THEN conjunct1, rule_format]
  note ties = solveBallBrickCollision_axis[THEN conjunct2, THEN conjunct1, rule_format]
  have flying: "\<not> isFlying ?brick"
    by (simp add: isFlying_def ctor_defs)
  have i1: "isIntersecting ?brick ?right"
    by (simp add: isIntersecting_def ctor_defs)
  have a1: "spec_collisionAxis ?brick ?right = Horizontal"
    by (simp add: spec_collisionAxis_def ctor_defs)
  have l1: "\<not> spec_ballFromLeft ?brick ?right"
    by (simp add: spec_ballFromLeft_def ctor_defs)
  have i2: "isIntersecting ?brick ?below"
    by (simp add: isIntersecting_def ctor_defs)
  have a2: "spec_collisionAxis ?brick ?below = Vertical"
    by (simp add: spec_collisionAxis_def ctor_defs)
  have t2: "\<not> spec_ballFromTop ?brick ?below"
    by (simp add: spec_ballFromTop_def ctor_defs)
  have i3: "isIntersecting ?brick ?corner"
    by (simp add: isIntersecting_def ctor_defs)
  have tie: "min \<bar>right (shape ?corner) - left (shape ?brick)\<bar>
                 \<bar>right (shape ?brick) - left (shape ?corner)\<bar>
           = min \<bar>bottom (shape ?corner) - top_edge (shape ?brick)\<bar>
                 \<bar>bottom (shape ?brick) - top_edge (shape ?corner)\<bar>"
    by (simp add: ctor_defs)
  have a3: "spec_collisionAxis ?brick ?corner = Vertical"
    using tie by (rule ties)
  have t3: "\<not> spec_ballFromTop ?brick ?corner"
    by (simp add: spec_ballFromTop_def ctor_defs)
  have r1: "velocity (snd (solveBallBrickCollision ?brick ?right)) = \<lparr>vec_x = - 2, vec_y = 2\<rparr>"
    using general[of ?brick ?right] flying i1 a1 l1 by (simp add: ctor_defs)
  have r2: "velocity (snd (solveBallBrickCollision ?brick ?below)) = \<lparr>vec_x = 2, vec_y = 2\<rparr>"
    using general[of ?brick ?below] flying i2 a2 t2 by (simp add: ctor_defs)
  have r3: "velocity (snd (solveBallBrickCollision ?brick ?corner)) = \<lparr>vec_x = 2, vec_y = - 2\<rparr>"
    using general[of ?brick ?corner] flying i3 a3 t3 by (simp add: ctor_defs)
  from flying i1 a1 l1 r1 i2 a2 t2 r2 i3 tie a3 t3 r3 show ?thesis
    by (intro conjI)
qed

lemma solveBallBrickCollision_fresh_brick:
  assumes "\<not> isFlying mbrick" and "hitsRequired mbrick = 1" and "isIntersecting mbrick mball"
  shows "isFlying (fst (solveBallBrickCollision mbrick mball))"
    and "hitsRequired (fst (solveBallBrickCollision mbrick mball)) = 0"
    and "velocity (snd (solveBallBrickCollision mbrick mball)) = velocity mball
       \<or> velocity (snd (solveBallBrickCollision mbrick mball))
            = (velocity mball)\<lparr>vec_x := - vec_x (velocity mball)\<rparr>
       \<or> velocity (snd (solveBallBrickCollision mbrick mball))
            = (velocity mball)\<lparr>vec_y := - vec_y (velocity mball)\<rparr>"
  using assms
  by (simp_all add: solveBallBrickCollision_def Let_def flingBrick_def isFlying_def)

text \<open>
  C2, at a failing input. A fresh brick with \<^verbatim>\<open>hitsRequired = 1\<close> at (100,100) is hit
  on its left side by a ball at (68,100) that moves right and down with velocity
  (2,2). The brick is flung, the horizontal axis is picked, and the velocity stays
  (2,2): no component is reflected, and the ball, whose centre is left of the brick's
  left edge, keeps moving right, into the brick.
\<close>

theorem solveBallBrickCollision_from_left_unreflected:
  "\<not> isFlying (Brick_ctor 100 100 1 1 False)
   \<and> hitsRequired (Brick_ctor 100 100 1 1 False) = 1
   \<and> isIntersecting (Brick_ctor 100 100 1 1 False) (Ball_ctor 68 100 False 2 2)
   \<and> spec_collisionAxis (Brick_ctor 100 100 1 1 False) (Ball_ctor 68 100 False 2 2) = Horizontal
   \<and> isFlying (fst (solveBallBrickCollision (Brick_ctor 100 100 1 1 False)
                      (Ball_ctor 68 100 False 2 2)))
   \<and> velocity (Ball_ctor 68 100 False 2 2) = \<lparr>vec_x = 2, vec_y = 2\<rparr>
   \<and> velocity (snd (solveBallBrickCollision (Brick_ctor 100 100 1 1 False)
                      (Ball_ctor 68 100 False 2 2))) = \<lparr>vec_x = 2, vec_y = 2\<rparr>
   \<and> xpos (shape (Ball_ctor 68 100 False 2 2)) < left (shape (Brick_ctor 100 100 1 1 False))"
  by (simp add: solveBallBrickCollision_def spec_collisionAxis_def isIntersecting_def
      isFlying_def flingBrick_def xpos_def ctor_defs Let_def)

text \<open>
  C3. \<^verbatim>\<open>isIntersecting(A, B)\<close> holds exactly when \<open>A.right \<ge> B.left\<close>,
  \<open>A.left \<le> B.right\<close>, \<open>A.bottom \<ge> B.top\<close> and \<open>A.top \<le> B.bottom\<close>. The intervals
  are closed: a brick whose right edge is at 130 and a ball whose left edge is at 130
  intersect, and a ball one unit further right does not.
\<close>

theorem isIntersecting_iff:
  "(isIntersecting mA mB \<longleftrightarrow>
      right (shape mA) \<ge> left (shape mB) \<and> left (shape mA) \<le> right (shape mB)
    \<and> bottom (shape mA) \<ge> top_edge (shape mB) \<and> top_edge (shape mA) \<le> bottom (shape mB))
   \<and> right (shape (Brick_ctor 100 100 1 1 False)) = left (shape (Ball_ctor 135 100 False 2 2))
   \<and> isIntersecting (Brick_ctor 100 100 1 1 False) (Ball_ctor 135 100 False 2 2)
   \<and> \<not> isIntersecting (Brick_ctor 100 100 1 1 False) (Ball_ctor 136 100 False 2 2)"
  by (simp add: isIntersecting_def ctor_defs)






lemma solveBrickBulletCollision_hit:
  assumes "isIntersecting mbrick mbullet"
  shows "hitsRequired (fst (solveBrickBulletCollision mbrick mbullet)) = hitsRequired mbrick - 1"
    and "destroyed (snd (solveBrickBulletCollision mbrick mbullet))"
  using assms
  by (simp_all add: solveBrickBulletCollision_def Let_def flingBrick_def)

lemma solveBallBrickCollision_flying:
  "isFlying mbrick \<Longrightarrow> solveBallBrickCollision mbrick mball = (mbrick, mball)"
  by (simp add: solveBallBrickCollision_def)





section \<open>Properties of the entity store\<close>

lemma erase_remove_if_Some:
  "erase_remove_if pred xs = Some ys \<Longrightarrow> ys = filter (\<lambda>x. pred x = Some False) xs"
  by (induction xs arbitrary: ys) (auto split: option.splits if_splits)

lemma erase_remove_if_defined:
  "\<forall>x \<in> set xs. pred x \<noteq> None \<Longrightarrow>
   erase_remove_if pred xs = Some (filter (\<lambda>x. pred x = Some False) xs)"
  by (induction xs) (auto split: option.splits)

lemma refresh_groups_Some:
  "refresh_groups pred gs = Some gs' \<Longrightarrow>
   gs' = map (\<lambda>g. (fst g, filter (\<lambda>p. pred p = Some False) (snd g))) gs"
  by (induction gs arbitrary: gs') (auto split: option.splits dest: erase_remove_if_Some)

lemma refresh_groups_defined:
  "\<forall>g \<in> set gs. \<forall>p \<in> set (snd g). pred p \<noteq> None \<Longrightarrow>
   refresh_groups pred gs = Some (map (\<lambda>g. (fst g, filter (\<lambda>p. pred p = Some False) (snd g))) gs)"
  by (induction gs) (auto simp: erase_remove_if_defined)

lemma map_of_map_snd:
  "map_of (map (\<lambda>g. (fst g, f (snd g))) gs) k = map_option f (map_of gs k)"
  by (induction gs) auto

lemma group_at_map:
  "f [] = [] \<Longrightarrow> group_at k (map (\<lambda>g. (fst g, f (snd g))) gs) = f (group_at k gs)"
  by (simp add: group_at_def map_of_map_snd split: option.splits)

lemma map_of_subscript:
  "map_of (subscript k gs) = (case map_of gs k of None \<Rightarrow> (map_of gs)(k \<mapsto> []) | Some v \<Rightarrow> map_of gs)"
  by (induction gs) (auto split: option.splits)

lemma group_at_subscript: "group_at T (subscript k gs) = group_at T gs"
  by (auto simp: group_at_def map_of_subscript split: option.splits)

lemma map_of_emplace_back_at:
  "map_of (emplace_back_at k p gs) = (map_of gs)(k \<mapsto> group_at k gs @ [p])"
  by (induction gs) (auto simp: group_at_def)

lemma group_at_emplace_back_at:
  "group_at T (emplace_back_at k p gs) = (if T = k then group_at k gs @ [p] else group_at T gs)"
  by (simp add: group_at_def map_of_emplace_back_at)

lemma keys_subscript: "fst ` set (subscript k gs) = insert k (fst ` set gs)"
  by (induction gs) auto

lemma keys_emplace_back_at: "fst ` set (emplace_back_at k p gs) = insert k (fst ` set gs)"
  by (induction gs) auto

lemma distinct_subscript: "distinct (map fst gs) \<Longrightarrow> distinct (map fst (subscript k gs))"
  by (induction gs) (auto simp: keys_subscript)

lemma distinct_emplace_back_at:
  "distinct (map fst gs) \<Longrightarrow> distinct (map fst (emplace_back_at k p gs))"
  by (induction gs) (auto simp: keys_emplace_back_at)

lemma pointers_subscript:
  "g \<in> set (subscript k gs) \<Longrightarrow> q \<in> set (snd g) \<Longrightarrow> \<exists>g' \<in> set gs. q \<in> set (snd g')"
  by (induction gs) (auto split: if_splits)

lemma pointers_emplace_back_at:
  "g \<in> set (emplace_back_at k p gs) \<Longrightarrow> q \<in> set (snd g) \<Longrightarrow>
   q = p \<or> (\<exists>g' \<in> set gs. q \<in> set (snd g'))"
  by (induction gs) (auto split: if_splits)

lemma deref_owned: "p \<in> fst ` set (entities m) \<Longrightarrow> deref m p \<noteq> None"
  by (simp add: deref_def map_of_eq_None_iff)

lemma alive_iff: "alive m p \<longleftrightarrow> map_option destroyed (deref m p) = Some False"
  by (auto simp: alive_def)

lemma alive_pred: "(\<lambda>p. map_option destroyed (deref m p) = Some False) = alive m"
  by (rule ext) (simp add: alive_iff)

lemma refresh_eq:
  assumes "store_inv m"
  shows "refresh m = Inr (m\<lparr> groupedEntities :=
                              map (\<lambda>g. (fst g, filter (alive m) (snd g))) (groupedEntities m),
                            entities := filter (\<lambda>e. \<not> destroyed (snd e)) (entities m) \<rparr>)"
proof -
  have "\<forall>g \<in> set (groupedEntities m). \<forall>p \<in> set (snd g). map_option destroyed (deref m p) \<noteq> None"
    using assms deref_owned by (fastforce simp: store_inv_def)
  then have "refresh_groups (\<lambda>ment. map_option destroyed (deref m ment)) (groupedEntities m)
      = Some (map (\<lambda>g. (fst g, filter (alive m) (snd g))) (groupedEntities m))"
    using refresh_groups_defined[of "groupedEntities m" "\<lambda>ment. map_option destroyed (deref m ment)"]
    unfolding alive_pred by blast
  moreover have "erase_remove_if (\<lambda>entSharedPtr. Some (destroyed (snd entSharedPtr))) (entities m)
      = Some (filter (\<lambda>e. \<not> destroyed (snd e)) (entities m))"
    by (simp add: erase_remove_if_defined)
  ultimately show ?thesis by (simp add: refresh_def)
qed

lemma map_of_filter_kept:
  "map_of es p = Some e \<Longrightarrow> P (p, e) \<Longrightarrow> map_of (filter P es) p = Some e"
  by (induction es) (auto split: if_splits)

lemma alive_owned:
  assumes "alive m p"
  shows "p \<in> fst ` set (filter (\<lambda>e. \<not> destroyed (snd e)) (entities m))"
proof -
  from assms obtain e where e: "map_of (entities m) p = Some e" "\<not> destroyed e"
    by (auto simp: alive_def deref_def)
  then have "(p, e) \<in> set (entities m)" by (simp add: map_of_SomeD)
  with e(2) have "(p, e) \<in> set (filter (\<lambda>e. \<not> destroyed (snd e)) (entities m))" by simp
  then show ?thesis by (rule image_eqI[rotated]) simp
qed

lemma store_inv_refresh:
  assumes "store_inv m" and "refresh m = Inr m'"
  shows "store_inv m'"
proof -
  from assms refresh_eq[OF assms(1)]
  have m': "m' = m\<lparr> groupedEntities :=
                              map (\<lambda>g. (fst g, filter (alive m) (snd g))) (groupedEntities m),
                            entities := filter (\<lambda>e. \<not> destroyed (snd e)) (entities m) \<rparr>"
    by simp
  have "distinct (map fst (entities m'))"
    using assms(1) by (simp add: m' store_inv_def distinct_map_filter)
  moreover have "distinct (map fst (groupedEntities m'))"
    using assms(1) by (simp add: m' store_inv_def comp_def)
  moreover have "\<forall>g \<in> set (groupedEntities m'). \<forall>p \<in> set (snd g). p \<in> fst ` set (entities m')"
    using alive_owned by (auto simp: m')
  ultimately show ?thesis by (simp add: store_inv_def)
qed

lemma alive_kept:
  assumes "entities m' = filter (\<lambda>e. \<not> destroyed (snd e)) (entities m)" and "alive m p"
  shows "alive m' p"
proof -
  from assms(2) obtain e where e: "map_of (entities m) p = Some e" "\<not> destroyed e"
    by (auto simp: alive_def deref_def)
  then have "map_of (filter (\<lambda>e. \<not> destroyed (snd e)) (entities m)) p = Some e"
    by (intro map_of_filter_kept) simp_all
  with e(2) assms(1) show ?thesis by (simp add: alive_def deref_def)
qed

lemma refresh_fixpoint:
  assumes "store_inv m" and "refresh m = Inr m'"
  shows "refresh m' = Inr m'"
proof -
  from assms refresh_eq[OF assms(1)]
  have m': "m' = m\<lparr> groupedEntities :=
                              map (\<lambda>g. (fst g, filter (alive m) (snd g))) (groupedEntities m),
                            entities := filter (\<lambda>e. \<not> destroyed (snd e)) (entities m) \<rparr>"
    by simp
  have "store_inv m'" using assms by (rule store_inv_refresh)
  have keep: "alive m p \<Longrightarrow> alive m' p" for p
    by (rule alive_kept[of m' m]) (simp_all add: m')
  have g: "filter (\<lambda>p. alive m p \<and> alive m' p) v = filter (alive m) v" for v
    using keep by (intro filter_cong) auto
  have "map (\<lambda>g. (fst g, filter (alive m') (snd g))) (groupedEntities m') = groupedEntities m'"
  proof -
    have "groupedEntities m' = map (\<lambda>g. (fst g, filter (alive m) (snd g))) (groupedEntities m)"
      by (simp add: m')
    then show ?thesis by (simp add: comp_def g)
  qed
  moreover have "filter (\<lambda>e. \<not> destroyed (snd e)) (entities m') = entities m'"
    by (simp add: m')
  ultimately show ?thesis using refresh_eq[OF \<open>store_inv m'\<close>] by simp
qed


lemma store_inv_Manager_ctor: "store_inv Manager_ctor"
  by (simp add: store_inv_def Manager_ctor_def)

lemma store_inv_clear: "store_inv (clear m)"
  by (simp add: store_inv_def clear_def)

lemma store_inv_getAll: "store_inv m \<Longrightarrow> store_inv (snd (getAll T m))"
  by (auto simp: store_inv_def getAll_def Let_def distinct_subscript dest: pointers_subscript)

lemma store_inv_create:
  assumes "store_inv m" and "ptr \<notin> fst ` set (entities m)"
  shows "store_inv (snd (create T ptr obj m))"
  using assms
  by (auto simp: store_inv_def create_def distinct_emplace_back_at dest!: pointers_emplace_back_at)

lemma keys_modify:
  "map fst (map (\<lambda>e. if fst e = p then (p, f (snd e)) else e) es) = map fst es"
  by (induction es) auto

lemma store_inv_modify:
  assumes "store_inv m" and "modify p f m = Inr m'"
  shows "store_inv m'"
proof -
  from assms(2) have m': "m' = m\<lparr> entities := map (\<lambda>e. if fst e = p then (p, f (snd e)) else e) (entities m) \<rparr>"
    by (simp add: modify_def split: if_splits)
  have keys: "map fst (entities m') = map fst (entities m)"
    by (simp add: m' keys_modify)
  then have "set (map fst (entities m')) = set (map fst (entities m))"
    by (rule arg_cong)
  then have "fst ` set (entities m') = fst ` set (entities m)"
    by (simp only: set_map)
  moreover have "groupedEntities m' = groupedEntities m"
    by (simp add: m')
  ultimately show ?thesis
    using assms(1) keys by (simp add: store_inv_def)
qed

lemma store_inv_perform:
  assumes "store_inv m" and "perform c m = Inr m'"
    and "case c of Create T ptr obj \<Rightarrow> ptr \<notin> fst ` set (entities m) | _ \<Rightarrow> True"
  shows "store_inv m'"
proof (cases c)
  case (Create T ptr obj)
  with assms store_inv_create[of m ptr T obj] show ?thesis by simp
next
  case Refresh
  with assms store_inv_refresh[of m m'] show ?thesis by simp
next
  case Clear
  with assms store_inv_clear[of m] show ?thesis by auto
next
  case (GetAll T)
  with assms store_inv_getAll[of m T] show ?thesis by auto
next
  case (Modify p f)
  with assms store_inv_modify[of m p f m'] show ?thesis by simp
qed

lemma store_inv_run:
  assumes "store_inv m" and "allocates_fresh cs m" and "run cs m = Inr m'"
  shows "store_inv m'"
  using assms
proof (induction cs arbitrary: m)
  case Nil
  then show ?case by simp
next
  case (Cons c cs)
  from Cons.prems(3) obtain m1 where m1: "perform c m = Inr m1" "run cs m1 = Inr m'"
    by (auto split: sum.splits)
  from Cons.prems(2) m1(1)
  have fresh: "case c of Create T ptr obj \<Rightarrow> ptr \<notin> fst ` set (entities m) | _ \<Rightarrow> True"
    and rest: "allocates_fresh cs m1"
    by simp_all
  from Cons.prems(1) m1(1) fresh have "store_inv m1"
    by (rule store_inv_perform)
  then show ?case
    using rest m1(2) by (rule Cons.IH)
qed

lemma store_inv_reachable:
  assumes "allocates_fresh cs Manager_ctor" and "run cs Manager_ctor = Inr m"
  shows "store_inv m"
  using store_inv_Manager_ctor assms by (rule store_inv_run)

lemma refresh_Inr:
  assumes "refresh m = Inr m'"
  shows "groupedEntities m' = map (\<lambda>g. (fst g, filter (alive m) (snd g))) (groupedEntities m)"
    and "entities m' = filter (\<lambda>e. \<not> destroyed (snd e)) (entities m)"
  using assms
  by (auto simp: refresh_def alive_pred[symmetric] split: option.splits
      dest!: refresh_groups_Some erase_remove_if_Some)

lemma group_at_perform:
  assumes "perform c m = Inr m'" and "\<not> creates T c" and "group_at T (groupedEntities m) = []"
  shows "group_at T (groupedEntities m') = []"
proof (cases c)
  case (Create U ptr obj)
  with assms show ?thesis by (auto simp: create_def group_at_emplace_back_at)
next
  case Refresh
  with assms have "groupedEntities m' = map (\<lambda>g. (fst g, filter (alive m) (snd g))) (groupedEntities m)"
    by (simp add: refresh_Inr)
  with assms(3) show ?thesis by (simp add: group_at_map)
next
  case Clear
  with assms show ?thesis by (auto simp: clear_def group_at_def)
next
  case (GetAll U)
  with assms show ?thesis by (auto simp: getAll_def Let_def group_at_subscript)
next
  case (Modify p f)
  with assms show ?thesis by (auto simp: modify_def split: if_splits)
qed

lemma group_at_run:
  assumes "run cs m = Inr m'" and "\<forall>c \<in> set cs. \<not> creates T c"
    and "group_at T (groupedEntities m) = []"
  shows "group_at T (groupedEntities m') = []"
  using assms
proof (induction cs arbitrary: m)
  case Nil
  then show ?case by simp
next
  case (Cons c cs)
  from Cons.prems(1) obtain m1 where m1: "perform c m = Inr m1" "run cs m1 = Inr m'"
    by (auto split: sum.splits)
  from m1(1) Cons.prems(2,3) have "group_at T (groupedEntities m1) = []"
    by (intro group_at_perform[of c m m1 T]) simp_all
  with Cons.IH[OF m1(2)] Cons.prems(2) show ?case by simp
qed

lemma getAll_fst: "fst (getAll T m) = group_at T (groupedEntities m)"
  by (simp add: getAll_def Let_def group_at_subscript)

lemma example_manager_reachable:
  "run [Create 7 0 (example_entity False), Create 7 1 (example_entity False),
        Create 9 2 (example_entity False), Modify 1 (\<lambda>e. e\<lparr>destroyed := True\<rparr>)]
       Manager_ctor = Inr example_manager"
  by (simp add: create_def modify_def Manager_ctor_def example_manager_def example_entity_def)

lemma store_inv_example_manager: "store_inv example_manager"
  by (simp add: store_inv_def example_manager_def)

lemma refresh_example_manager: "refresh example_manager = Inr example_refreshed"
  by (simp add: refresh_def deref_def example_manager_def example_refreshed_def
      example_entity_def)

text \<open>
  C7. Right after \<^verbatim>\<open>create<T>\<close>, \<^verbatim>\<open>getAll<T>\<close> is the former group followed by the new
  entity, so the new entity is its last element. After \<^verbatim>\<open>clear()\<close>, \<^verbatim>\<open>getAll<U>\<close> is
  empty for every type, and it stays empty through any further calls that succeed, as
  long as none of them creates an entity of type \<open>U\<close>.
\<close>

theorem create_getAll_clear:
  "fst (getAll T (snd (create T ptr obj m))) = fst (getAll T m) @ [ptr]
   \<and> last (fst (getAll T (snd (create T ptr obj m)))) = fst (create T ptr obj m)
   \<and> fst (getAll U (clear m)) = []
   \<and> (\<forall>cs m'. (\<forall>c \<in> set cs. \<not> creates U c) \<and> run cs (clear m) = Inr m'
        \<longrightarrow> fst (getAll U m') = [])"
proof -
  have "group_at U (groupedEntities (clear m)) = []"
    by (simp add: clear_def group_at_def)
  then have "\<forall>cs m'. (\<forall>c \<in> set cs. \<not> creates U c) \<and> run cs (clear m) = Inr m'
        \<longrightarrow> fst (getAll U m') = []"
    using group_at_run[of _ "clear m" _ U] by (auto simp: getAll_fst)
  moreover have "fst (getAll T (snd (create T ptr obj m))) = fst (getAll T m) @ [ptr]"
    by (simp add: getAll_fst create_def group_at_emplace_back_at)
  moreover have "fst (create T ptr obj m) = ptr"
    by (simp add: create_def)
  moreover have "fst (getAll U (clear m)) = []"
    by (simp add: getAll_fst clear_def group_at_def)
  ultimately show ?thesis by simp
qed

theorem create_getAll_clear_witness:
  "list_all (\<lambda>c. \<not> creates 7 c)
     [GetAll 7, Create 9 5 (example_entity False), Refresh,
      Modify 5 (\<lambda>e. e\<lparr>destroyed := True\<rparr>), Refresh]
   \<and> run [GetAll 7, Create 9 5 (example_entity False), Refresh,
           Modify 5 (\<lambda>e. e\<lparr>destroyed := True\<rparr>), Refresh] (clear example_manager)
       = Inr \<lparr> entities = [], groupedEntities = [(7, []), (9, [])], totalLives = 3 \<rparr>
   \<and> fst (getAll 7 (\<lparr> entities = [], groupedEntities = [(7, []), (9, [])],
                       totalLives = 3 \<rparr> :: unit Manager)) = []
   \<and> fst (getAll 7 (snd (create 7 3 (example_entity False) example_manager))) = [0, 1, 3]"
proof -
  let ?cs = "[GetAll 7, Create 9 5 (example_entity False), Refresh,
              Modify 5 (\<lambda>e. e\<lparr>destroyed := True\<rparr>), Refresh] :: unit call list"
  let ?m' = "\<lparr> entities = [], groupedEntities = [(7, []), (9, [])], totalLives = 3 \<rparr> :: unit Manager"
  have none: "\<forall>c \<in> set ?cs. \<not> creates 7 c"
    by simp
  have ran: "run ?cs (clear example_manager) = Inr ?m'"
    by (simp add: clear_def getAll_def create_def refresh_def modify_def deref_def
        group_at_def Let_def example_manager_def example_entity_def)
  have before: "fst (getAll 7 example_manager) = [0, 1]"
    by (simp add: getAll_def group_at_def example_manager_def)
  from create_getAll_clear[of 7 3 "example_entity False" example_manager 7] none ran before
  have empty: "fst (getAll 7 ?m') = []"
    and grown: "fst (getAll 7 (snd (create 7 3 (example_entity False) example_manager))) = [0, 1, 3]"
    by (blast, simp)
  have "list_all (\<lambda>c. \<not> creates 7 c) ?cs"
    by simp
  with ran empty grown show ?thesis
    by (simp only: simp_thms)
qed

text \<open>
  C8. When the group of \<open>T\<close> is not empty, \<^verbatim>\<open>getSingleEntity<T>\<close> returns the first
  element of \<^verbatim>\<open>getAll<T>\<close> and does not take the out-of-bounds branch. That branch is
  taken exactly when the group is empty. The store is left as \<^verbatim>\<open>getAll<T>\<close> leaves it.
\<close>

theorem getSingleEntity_first:
  "(fst (getAll T m) \<noteq> [] \<longrightarrow>
      fst (getSingleEntity T m) = Inr (hd (fst (getAll T m)))
    \<and> fst (getSingleEntity T m) \<noteq> Inl OutOfBounds)
   \<and> (fst (getAll T m) = [] \<longrightarrow> fst (getSingleEntity T m) = Inl OutOfBounds)
   \<and> snd (getSingleEntity T m) = snd (getAll T m)"
  by (auto simp: getSingleEntity_def split: prod.splits list.splits)

theorem getSingleEntity_first_witness:
  "fst (getAll 7 example_manager) = [0, 1]
   \<and> fst (getSingleEntity 7 example_manager) = Inr 0
   \<and> fst (getAll 8 example_manager) = []
   \<and> fst (getSingleEntity 8 example_manager) = Inl OutOfBounds"
proof -
  have g7: "fst (getAll 7 example_manager) = [0, 1]"
    by (simp add: getAll_def group_at_def example_manager_def)
  have g8: "fst (getAll 8 example_manager) = []"
    by (simp add: getAll_def group_at_def example_manager_def)
  from getSingleEntity_first[of 7 example_manager] getSingleEntity_first[of 8 example_manager]
    g7 g8
  show ?thesis by simp
qed

lemma refresh_times_fixpoint: "refresh m = Inr m \<Longrightarrow> refresh_times n m = Inr m"
  by (induction n) simp_all

lemma drawn_survivors:
  assumes "distinct (map fst es)"
  shows "map fst (filter (\<lambda>e. \<not> destroyed (snd e)) es)
       = filter (\<lambda>p. \<exists>e. map_of es p = Some e \<and> \<not> destroyed e) (map fst es)"
proof -
  have "x \<in> set es \<Longrightarrow> (\<exists>e. map_of es (fst x) = Some e \<and> \<not> destroyed e) \<longleftrightarrow> \<not> destroyed (snd x)" for x
    using assms by (cases x) auto
  then show ?thesis
    by (simp add: filter_map comp_def cong: filter_cong)
qed

lemma entities_perform:
  assumes "perform c m = Inr m'"
  shows "subseq (draw m' []) (draw m [] @ created [c])"
proof (cases c)
  case (Create T ptr obj)
  with assms show ?thesis by (auto simp: draw_def create_def)
next
  case Refresh
  with assms have "entities m' = filter (\<lambda>e. \<not> destroyed (snd e)) (entities m)"
    by (simp add: refresh_Inr)
  then show ?thesis
    using Refresh by (simp add: draw_def subseq_map)
next
  case Clear
  with assms show ?thesis by (auto simp: draw_def clear_def)
next
  case (GetAll T)
  with assms show ?thesis by (auto simp: draw_def getAll_def Let_def)
next
  case (Modify p f)
  with assms have "m' = m\<lparr> entities := map (\<lambda>e. if fst e = p then (p, f (snd e)) else e) (entities m) \<rparr>"
    by (simp add: modify_def split: if_splits)
  then have "map fst (entities m') = map fst (entities m)"
    by (simp add: keys_modify)
  then show ?thesis
    using Modify by (simp add: draw_def)
qed

lemma created_Cons: "created (c # cs) = created [c] @ created cs"
  by (cases c) simp_all

lemma draw_run:
  assumes "run cs m = Inr m'"
  shows "subseq (draw m' []) (draw m [] @ created cs)"
  using assms
proof (induction cs arbitrary: m)
  case Nil
  then show ?case by simp
next
  case (Cons c cs)
  from Cons.prems obtain m1 where m1: "perform c m = Inr m1" "run cs m1 = Inr m'"
    by (auto split: sum.splits)
  have "subseq (draw m' []) (draw m1 [] @ created cs)"
    using Cons.IH[OF m1(2)] .
  moreover have "subseq (draw m1 [] @ created cs) ((draw m [] @ created [c]) @ created cs)"
    using entities_perform[OF m1(1)] by (intro list_emb_append_mono) simp_all
  ultimately have "subseq (draw m' []) ((draw m [] @ created [c]) @ created cs)"
    by (rule subseq_order.trans)
  then show ?case
    using created_Cons[of c cs] by simp
qed

text \<open>
  C5. On a store that satisfies the invariant, \<^verbatim>\<open>refresh()\<close> succeeds and removes
  exactly the entities whose \<^verbatim>\<open>destroyed\<close> flag is set: the canonical list keeps exactly
  its elements with the flag unset, every type group keeps exactly its pointers to such
  entities, nothing that remains in either structure is destroyed, every pointer of the
  type index is the address of an element of the canonical list, and the keys of the
  index are as before.
\<close>

theorem refresh_removes_destroyed:
  assumes "store_inv m"
  shows "\<exists>m'. refresh m = Inr m'
     \<and> set (entities m') = {e \<in> set (entities m). \<not> destroyed (snd e)}
     \<and> (\<forall>T. set (fst (getAll T m')) = {p \<in> set (fst (getAll T m)). alive m p})
     \<and> (\<forall>e \<in> set (entities m'). \<not> destroyed (snd e))
     \<and> (\<forall>g \<in> set (groupedEntities m'). \<forall>p \<in> set (snd g). alive m' p)
     \<and> (\<forall>g \<in> set (groupedEntities m'). \<forall>p \<in> set (snd g). p \<in> fst ` set (entities m'))
     \<and> map fst (groupedEntities m') = map fst (groupedEntities m)"
proof -
  from refresh_eq[OF assms] obtain m' where m': "refresh m = Inr m'" by blast
  note r = refresh_Inr[OF m']
  have "store_inv m'" using assms m' by (rule store_inv_refresh)
  then have owned: "\<forall>g \<in> set (groupedEntities m'). \<forall>p \<in> set (snd g). p \<in> fst ` set (entities m')"
    by (simp add: store_inv_def)
  have groups: "set (fst (getAll T m')) = {p \<in> set (fst (getAll T m)). alive m p}" for T
    by (auto simp: getAll_fst r group_at_map)
  have keep: "alive m p \<Longrightarrow> alive m' p" for p
    using r(2) by (rule alive_kept)
  have live: "\<forall>g \<in> set (groupedEntities m'). \<forall>p \<in> set (snd g). alive m' p"
    by (auto simp: r(1) keep)
  have keys: "map fst (groupedEntities m') = map fst (groupedEntities m)"
    by (simp add: r comp_def)
  from m' r(2) groups live owned keys show ?thesis
    by auto
qed

theorem refresh_removes_destroyed_witness:
  "store_inv example_manager
   \<and> refresh example_manager = Inr example_refreshed
   \<and> set (entities example_refreshed)
       = {e \<in> set (entities example_manager). \<not> destroyed (snd e)}
   \<and> map fst (entities example_manager) = [0, 1, 2]
   \<and> map fst (entities example_refreshed) = [0, 2]
   \<and> set (fst (getAll 7 example_refreshed))
       = {p \<in> set (fst (getAll 7 example_manager)). alive example_manager p}
   \<and> fst (getAll 7 example_manager) = [0, 1]
   \<and> fst (getAll 7 example_refreshed) = [0]"
proof -
  from refresh_removes_destroyed[OF store_inv_example_manager]
  obtain m' where m': "refresh example_manager = Inr m'"
    and kept: "set (entities m') = {e \<in> set (entities example_manager). \<not> destroyed (snd e)}"
    and groups: "\<forall>T. set (fst (getAll T m'))
                   = {p \<in> set (fst (getAll T example_manager)). alive example_manager p}"
    by blast
  from m' refresh_example_manager have "m' = example_refreshed"
    by simp
  with kept groups
  have "set (entities example_refreshed)
          = {e \<in> set (entities example_manager). \<not> destroyed (snd e)}"
    and "set (fst (getAll 7 example_refreshed))
          = {p \<in> set (fst (getAll 7 example_manager)). alive example_manager p}"
    by blast+
  moreover have "map fst (entities example_manager) = [0, 1, 2]"
    and "map fst (entities example_refreshed) = [0, 2]"
    and "fst (getAll 7 example_manager) = [0, 1]"
    and "fst (getAll 7 example_refreshed) = [0]"
    by (simp_all add: getAll_def group_at_def example_manager_def example_refreshed_def)
  ultimately show ?thesis
    using store_inv_example_manager refresh_example_manager by blast
qed

text \<open>
  C9. \<^verbatim>\<open>refresh()\<close> is idempotent: on a store that satisfies the invariant the first
  call succeeds, and a second call right after it succeeds and returns the store the
  first call produced, so two calls in a row give what one call gives.
\<close>

theorem refresh_idempotent:
  assumes "store_inv m"
  shows "\<exists>m'. refresh m = Inr m' \<and> refresh m' = Inr m'
            \<and> refresh_times (Suc (Suc 0)) m = refresh m"
proof -
  from refresh_eq[OF assms] obtain m' where m': "refresh m = Inr m'" by blast
  with assms have "refresh m' = Inr m'" by (rule refresh_fixpoint)
  with m' show ?thesis by simp
qed

theorem refresh_idempotent_witness:
  "store_inv example_manager
   \<and> refresh example_manager = Inr example_refreshed
   \<and> refresh example_refreshed = Inr example_refreshed
   \<and> refresh_times (Suc (Suc 0)) example_manager = Inr example_refreshed"
proof -
  from refresh_idempotent[OF store_inv_example_manager]
  obtain m' where m': "refresh example_manager = Inr m'" and again: "refresh m' = Inr m'"
    and twice: "refresh_times (Suc (Suc 0)) example_manager = refresh example_manager"
    by blast
  from m' refresh_example_manager have "m' = example_refreshed"
    by simp
  with again twice refresh_example_manager
  have "refresh example_refreshed = Inr example_refreshed"
    and "refresh_times (Suc (Suc 0)) example_manager = Inr example_refreshed"
    by simp_all
  then show ?thesis
    using store_inv_example_manager refresh_example_manager by blast
qed

text \<open>
  C10. Any positive number of \<^verbatim>\<open>refresh()\<close> calls in a row, on a store that satisfies
  the invariant, leaves the canonical list equal to the prior list filtered to the
  entities that are not destroyed, and each type group equal to the prior group
  filtered likewise: both are subsequences of what they were. The draw pass then draws
  the survivors in the order in which it drew them before, and an entity created
  afterwards is drawn last. From an empty store, whatever calls are made, the entities
  are drawn in the order of their creation.
\<close>

theorem refresh_keeps_order:
  fixes m :: "'a Manager"
  assumes "store_inv m"
  shows "(\<exists>m'. refresh_times (Suc n) m = Inr m'
     \<and> entities m' = filter (\<lambda>e. \<not> destroyed (snd e)) (entities m)
     \<and> subseq (entities m') (entities m)
     \<and> (\<forall>T. fst (getAll T m') = filter (alive m) (fst (getAll T m)))
     \<and> (\<forall>T. subseq (fst (getAll T m')) (fst (getAll T m)))
     \<and> draw m' [] = filter (alive m) (draw m [])
     \<and> subseq (draw m' []) (draw m [])
     \<and> draw (snd (create T ptr obj m')) [] = draw m' [] @ [ptr])
   \<and> (\<forall>cs m1. run cs (Manager_ctor :: 'a Manager) = Inr m1
        \<longrightarrow> subseq (draw m1 []) (created cs))"
proof -
  from refresh_eq[OF assms] obtain m' where m': "refresh m = Inr m'" by blast
  with assms have "refresh m' = Inr m'" by (rule refresh_fixpoint)
  then have times: "refresh_times (Suc n) m = Inr m'"
    using m' by (simp add: refresh_times_fixpoint)
  note r = refresh_Inr[OF m']
  have groups: "\<forall>T. fst (getAll T m') = filter (alive m) (fst (getAll T m))"
    by (simp add: getAll_fst r group_at_map)
  have "alive m = (\<lambda>p. \<exists>e. map_of (entities m) p = Some e \<and> \<not> destroyed e)"
    by (rule ext) (simp add: alive_def deref_def)
  moreover have "distinct (map fst (entities m))"
    using assms by (simp add: store_inv_def)
  ultimately have drawn: "draw m' [] = filter (alive m) (draw m [])"
    using drawn_survivors[of "entities m"] by (simp only: draw_def r append_Nil)
  have created: "draw (snd (create T ptr obj m')) [] = draw m' [] @ [ptr]"
    by (simp add: draw_def create_def)
  have s1: "subseq (entities m') (entities m)"
    by (simp add: r)
  have s2: "\<forall>T. subseq (fst (getAll T m')) (fst (getAll T m))"
    by (simp add: groups)
  have s3: "subseq (draw m' []) (draw m [])"
    by (simp add: drawn)
  have order: "\<forall>cs m1. run cs (Manager_ctor :: 'a Manager) = Inr m1
                  \<longrightarrow> subseq (draw m1 []) (created cs)"
  proof (intro allI impI)
    fix cs and m1 :: "'a Manager"
    assume "run cs Manager_ctor = Inr m1"
    from draw_run[OF this] show "subseq (draw m1 []) (created cs)"
      by (simp add: draw_def Manager_ctor_def)
  qed
  from times r(2) s1 groups s2 drawn s3 created order show ?thesis
    by blast
qed

theorem refresh_keeps_order_witness:
  "store_inv example_manager
   \<and> refresh_times (Suc (Suc (Suc 0))) example_manager = Inr example_refreshed
   \<and> draw example_manager [] = [0, 1, 2]
   \<and> draw example_refreshed [] = [0, 2]
   \<and> draw example_refreshed [] = filter (alive example_manager) (draw example_manager [])
   \<and> run [Create 7 0 (example_entity False), Create 7 1 (example_entity False),
           Create 9 2 (example_entity False), Modify 1 (\<lambda>e. e\<lparr>destroyed := True\<rparr>)]
          Manager_ctor = Inr example_manager
   \<and> subseq (draw example_manager [])
       (created [Create 7 0 (example_entity False), Create 7 1 (example_entity False),
                 Create 9 2 (example_entity False), Modify 1 (\<lambda>e. e\<lparr>destroyed := True\<rparr>)])"
proof -
  have three: "refresh_times (Suc (Suc (Suc 0))) example_manager = Inr example_refreshed"
    using refresh_example_manager refresh_fixpoint[OF store_inv_example_manager refresh_example_manager]
    by simp
  from refresh_keeps_order[OF store_inv_example_manager, of "Suc (Suc 0)"]
  obtain m' where m': "refresh_times (Suc (Suc (Suc 0))) example_manager = Inr m'"
    and drawn: "draw m' [] = filter (alive example_manager) (draw example_manager [])"
    and order: "\<forall>cs m1. run cs (Manager_ctor :: unit Manager) = Inr m1
                  \<longrightarrow> subseq (draw m1 []) (created cs)"
    by blast
  from m' three have "m' = example_refreshed"
    by simp
  with drawn order example_manager_reachable
  have "draw example_refreshed [] = filter (alive example_manager) (draw example_manager [])"
    and "subseq (draw example_manager [])
       (created [Create 7 0 (example_entity False), Create 7 1 (example_entity False),
                 Create 9 2 (example_entity False), Modify 1 (\<lambda>e. e\<lparr>destroyed := True\<rparr>)])"
    by blast+
  moreover have "draw example_manager [] = [0, 1, 2]" and "draw example_refreshed [] = [0, 2]"
    by (simp_all add: draw_def example_manager_def example_refreshed_def)
  ultimately show ?thesis
    using store_inv_example_manager three example_manager_reachable by blast
qed

end
